theory Spec2Isabelle
  imports Complex_Main "HOL-Library.AList"
begin

section \<open>OSM building fetcher: the transformation core of \<open>osm_building_fetcher.py\<close>\<close>

text \<open>
  The development embeds the pure part of the module: the attribute normaliser
  (\<open>_normalize_height\<close>, \<open>_format_address\<close>), the ring builder (\<open>_ensure_closed_ring\<close>),
  the scene packet builder (\<open>_build_czml_document\<close>) and the element loop of
  \<open>fetch_osm_buildings\<close>. The HTTP transport and the reading of an offline payload are
  represented by their outcome (the payload, or none, and the collected error texts).

  Python floats are modelled as real numbers: \<open>float(token)\<close> is the exact decimal value
  of the token and \<open>*\<close> is exact multiplication. The binary64 rounding of very long or
  very large tokens is outside the model. Python strings are \<open>string\<close>.
\<close>

subsection \<open>Numeric token parsing: \<open>_clean\<close>\<close>

definition is_digit :: "char \<Rightarrow> bool" where
  \<comment> \<open>the character class \<open>[0-9]\<close>\<close>
  "is_digit c = (c \<in> set ''0123456789'')"

definition is_sign :: "char \<Rightarrow> bool" where
  \<comment> \<open>the character class \<open>[-+]\<close>\<close>
  "is_sign c = (c = CHR ''-'' \<or> c = CHR ''+'')"

definition match_unsigned :: "string \<Rightarrow> string option" where
  \<comment> \<open>\<open>[0-9]*\.?[0-9]+\<close> anchored at the head of the text, with the backtracking order of
      Python's \<open>re\<close>: the longest digit run, then a dot followed by at least one digit;
      when the dot cannot be followed by a digit, the digit run alone (its last digit
      given back to \<open>[0-9]+\<close>).\<close>
  "match_unsigned cs =
     (let ds = takeWhile is_digit cs; rest = dropWhile is_digit cs in
      case rest of
        [] \<Rightarrow> if ds \<noteq> [] then Some ds else None
      | c # rest' \<Rightarrow>
          if c = CHR ''.'' \<and> takeWhile is_digit rest' \<noteq> []
          then Some (ds @ c # takeWhile is_digit rest')
          else if ds \<noteq> [] then Some ds else None)"

definition match_here :: "string \<Rightarrow> string option" where
  \<comment> \<open>\<open>[-+]?[0-9]*\.?[0-9]+\<close> anchored at the head of the text: the sign is taken when it is
      there, and given back when the rest does not match after it.\<close>
  "match_here cs =
     (case cs of
        [] \<Rightarrow> None
      | c # cs' \<Rightarrow>
          if is_sign c
          then (case match_unsigned cs' of
                  Some m \<Rightarrow> Some (c # m)
                | None \<Rightarrow> match_unsigned cs)
          else match_unsigned cs)"

fun re_search :: "string \<Rightarrow> string option" where
  \<comment> \<open>\<open>re.search(r"([-+]?[0-9]*\.?[0-9]+)", value)\<close>: the match at the leftmost position
      that has one; the result is \<open>match.group(1)\<close>\<close>
  "re_search [] = None"
| "re_search (c # cs) =
     (case match_here (c # cs) of
        Some m \<Rightarrow> Some m
      | None \<Rightarrow> re_search cs)"

definition digit_value :: "char \<Rightarrow> nat" where
  "digit_value c = of_char c - 48"

definition digits_value :: "string \<Rightarrow> nat" where
  "digits_value ds = foldl (\<lambda>n c. 10 * n + digit_value c) 0 ds"

definition float_digits :: "bool \<Rightarrow> string \<Rightarrow> real option" where
  \<comment> \<open>the value of the text \<open>u\<close> after the sign: digits, an optional dot and digits, with
      at least one digit; negated when \<open>neg\<close>. \<open>None\<close> is \<open>ValueError\<close>.\<close>
  "float_digits neg u =
     (let ip = takeWhile is_digit u;
          r = dropWhile is_digit u;
          sg = (if neg then - 1 else 1 :: real)
      in case r of
           [] \<Rightarrow> if ip = [] then None else Some (sg * real (digits_value ip))
         | c # fp \<Rightarrow>
             if c = CHR ''.'' \<and> list_all is_digit fp \<and> \<not> (ip = [] \<and> fp = [])
             then Some (sg * real (digits_value (ip @ fp)) / 10 ^ length fp)
             else None)"

definition py_float :: "string \<Rightarrow> real option" where
  \<comment> \<open>\<open>float(s)\<close> on the texts the pattern can produce: an optional sign, then the
      digits\<close>
  "py_float s =
     float_digits (case s of [] \<Rightarrow> False | c # _ \<Rightarrow> c = CHR ''-'')
       (case s of [] \<Rightarrow> [] | c # r \<Rightarrow> if is_sign c then r else s)"

definition clean :: "string \<Rightarrow> real option" where
  "clean v =
     (if v = [] then None
      else case re_search v of
             None \<Rightarrow> None
           | Some m \<Rightarrow> py_float m)"

definition or_empty :: "string option \<Rightarrow> string" where
  \<comment> \<open>\<open>raw or ""\<close> for an optional text\<close>
  "or_empty raw = (case raw of None \<Rightarrow> [] | Some s \<Rightarrow> s)"

definition normalize_height :: "string option \<Rightarrow> string option \<Rightarrow> real option" where
  "normalize_height raw_height raw_levels =
     (case clean (or_empty raw_height) of
        Some height \<Rightarrow> Some height
      | None \<Rightarrow>
          (case clean (or_empty raw_levels) of
             Some height \<Rightarrow> Some (height * 3)
           | None \<Rightarrow> None))"

type_synonym tags = "string \<rightharpoonup> string"

definition py_or :: "string option \<Rightarrow> string option \<Rightarrow> string option" where
  \<comment> \<open>\<open>a or b\<close> on optional texts: \<open>a\<close> when it is there and non-empty, else \<open>b\<close>\<close>
  "py_or a b = (case a of None \<Rightarrow> b | Some s \<Rightarrow> if s \<noteq> [] then a else b)"

definition resolve_height :: "tags \<Rightarrow> real option" where
  \<comment> \<open>the height expression of \<open>fetch_osm_buildings\<close>:
      \<open>_normalize_height(tags.get("height") or tags.get("building:height"),
      tags.get("building:levels"))\<close>\<close>
  "resolve_height tags =
     normalize_height (py_or (tags ''height'') (tags ''building:height''))
       (tags ''building:levels'')"

subsection \<open>Address formatting: \<open>_format_address\<close>\<close>

definition ADDRESS_FIELDS :: "string list" where
  "ADDRESS_FIELDS =
     [''addr:housenumber'', ''addr:houseletter'', ''addr:street'', ''addr:suburb'',
      ''addr:city'', ''addr:state'', ''addr:postcode'', ''addr:country'']"

fun join :: "string \<Rightarrow> string list \<Rightarrow> string" where
  \<comment> \<open>\<open>sep.join(parts)\<close>\<close>
  "join sep [] = []"
| "join sep [p] = p"
| "join sep (p # q # ps) = p @ sep @ join sep (q # ps)"

fun collect_parts :: "tags \<Rightarrow> string list \<Rightarrow> string list \<Rightarrow> string list" where
  \<comment> \<open>the loop over the keys; \<open>parts\<close> is the list built so far\<close>
  "collect_parts tags [] parts = parts"
| "collect_parts tags (key # keys) parts =
     (case tags key of
        None \<Rightarrow> collect_parts tags keys parts
      | Some v \<Rightarrow>
          if v \<noteq> [] then collect_parts tags keys (parts @ [v])
          else collect_parts tags keys parts)"

definition format_address :: "tags \<Rightarrow> string option" where
  "format_address tags =
     (let parts = collect_parts tags ADDRESS_FIELDS []
      in if parts \<noteq> [] then Some (join '', '' parts) else None)"

subsection \<open>Ring closing: \<open>_ensure_closed_ring\<close>\<close>

record coord =
  lat :: real
  lng :: real

definition ensure_closed_ring :: "coord list \<Rightarrow> coord list" where
  \<comment> \<open>the source appends in place and returns the same list; the model returns the
      list after the call\<close>
  "ensure_closed_ring nodes =
     (if nodes = [] then nodes
      else if hd nodes \<noteq> last nodes then nodes @ [hd nodes]
      else nodes)"

subsection \<open>Scene packets: \<open>_build_czml_document\<close>\<close>

datatype json =
    JBool bool
  | JInt int
  | JNum real
  | JStr string
  | JList "json list"
  | JObj "(string \<times> json) list"

fun str_nat :: "nat \<Rightarrow> string" where
  "str_nat n =
     (if n < 10 then [''0123456789'' ! n]
      else str_nat (n div 10) @ [''0123456789'' ! (n mod 10)])"

declare str_nat.simps [simp del]

definition str_int :: "int \<Rightarrow> string" where
  \<comment> \<open>the text of an integer inside an f-string\<close>
  "str_int i = (if i < 0 then CHR ''-'' # str_nat (nat (- i)) else str_nat (nat i))"

fun extend_cartographic :: "coord list \<Rightarrow> real list \<Rightarrow> real list" where
  \<comment> \<open>the loop \<open>cartographic.extend([coord["lng"], coord["lat"], 0.0])\<close>\<close>
  "extend_cartographic [] cartographic = cartographic"
| "extend_cartographic (c # cs) cartographic =
     extend_cartographic cs (cartographic @ [lng c, lat c, 0])"

definition build_czml_document :: "int \<Rightarrow> coord list \<Rightarrow> real option \<Rightarrow> json list" where
  "build_czml_document wid coordinates height_opt =
     (let height = (case height_opt of None \<Rightarrow> 10 | Some h \<Rightarrow> h);
          cartographic = extend_cartographic coordinates [];
          document_packet = JObj
            [(''id'', JStr ''document''),
             (''name'', JStr (''OSM Way '' @ str_int wid)),
             (''version'', JStr ''1.0''),
             (''clock'', JObj
                [(''interval'', JStr ''2020-01-01T00:00:00Z/2020-01-01T00:01:00Z''),
                 (''currentTime'', JStr ''2020-01-01T00:00:00Z''),
                 (''multiplier'', JInt 1)])];
          building_packet = JObj
            [(''id'', JStr (''building-'' @ str_int wid)),
             (''name'', JStr (''Building '' @ str_int wid)),
             (''polygon'', JObj
                [(''positions'', JObj
                    [(''cartographicDegrees'', JList (map JNum cartographic))]),
                 (''perPositionHeight'', JBool False),
                 (''extrudedHeight'', JNum height),
                 (''height'', JNum 0),
                 (''material'', JObj
                    [(''solidColor'', JObj
                        [(''color'', JObj
                            [(''rgba'', JList [JInt 255, JInt 165, JInt 0, JInt 160])])])]),
                 (''outline'', JBool True),
                 (''outlineColor'', JObj
                    [(''rgba'', JList [JInt 0, JInt 0, JInt 0, JInt 255])])])]
      in [document_packet, building_packet])"

definition jfield :: "string \<Rightarrow> json \<Rightarrow> json option" where
  \<comment> \<open>reading a key of a packet\<close>
  "jfield k j = (case j of JObj kvs \<Rightarrow> map_of kvs k | _ \<Rightarrow> None)"

fun jpath :: "string list \<Rightarrow> json \<Rightarrow> json option" where
  "jpath [] j = Some j"
| "jpath (k # ks) j = (case jfield k j of None \<Rightarrow> None | Some j' \<Rightarrow> jpath ks j')"

subsection \<open>The element loop of \<open>fetch_osm_buildings\<close>\<close>

datatype element =
    Node int real real
    \<comment> \<open>type "node": id, lat, lon\<close>
  | Way int "int list option" "tags option"
    \<comment> \<open>type "way": id, the "nodes" list and the "tags" mapping, each of which may be missing\<close>
  | Other
    \<comment> \<open>any other type\<close>

datatype error = OverpassError string

record building_info =
  way_id :: int
  outline :: "coord list"
  height_m :: "real option"
  address :: "string option"

record fetch_result =
  count :: nat
  buildings :: "building_info list"
  czml_files :: "string list option"

definition tags_of :: "tags option \<Rightarrow> tags" where
  \<comment> \<open>\<open>element.get("tags", {})\<close>\<close>
  "tags_of t = (case t of None \<Rightarrow> Map.empty | Some tg \<Rightarrow> tg)"

definition is_building :: "tags option \<Rightarrow> bool" where
  \<comment> \<open>the truth value of \<open>element.get("tags", {}).get("building")\<close>\<close>
  "is_building t = (case tags_of t ''building'' of None \<Rightarrow> False | Some v \<Rightarrow> v \<noteq> [])"

fun index_elements ::
  "element list \<Rightarrow> (int \<rightharpoonup> coord) \<Rightarrow> (int \<times> element) list \<Rightarrow>
   (int \<rightharpoonup> coord) \<times> (int \<times> element) list" where
  \<comment> \<open>the first loop; \<open>blds\<close> is the dict \<open>buildings\<close>, which keeps the position of a key that is
      assigned again and replaces its value\<close>
  "index_elements [] nodes blds = (nodes, blds)"
| "index_elements (Node i la lo # es) nodes blds =
     index_elements es (nodes(i \<mapsto> \<lparr>lat = la, lng = lo\<rparr>)) blds"
| "index_elements (Way i ns t # es) nodes blds =
     (if is_building t
      then index_elements es nodes (AList.update i (Way i ns t) blds)
      else index_elements es nodes blds)"
| "index_elements (Other # es) nodes blds = index_elements es nodes blds"

fun resolve_refs :: "(int \<rightharpoonup> coord) \<Rightarrow> int list \<Rightarrow> coord list \<Rightarrow> coord list" where
  \<comment> \<open>the loop over \<open>node_refs\<close>; a reference with no node is skipped\<close>
  "resolve_refs nodes [] coordinates = coordinates"
| "resolve_refs nodes (node_id # refs) coordinates =
     (case nodes node_id of
        None \<Rightarrow> resolve_refs nodes refs coordinates
      | Some node \<Rightarrow>
          resolve_refs nodes refs (coordinates @ [\<lparr>lat = lat node, lng = lng node\<rparr>]))"

definition node_refs_of :: "element \<Rightarrow> int list" where
  \<comment> \<open>\<open>way.get("nodes", [])\<close>\<close>
  "node_refs_of way = (case way of Way _ (Some ns) _ \<Rightarrow> ns | _ \<Rightarrow> [])"

definition way_tags_of :: "element \<Rightarrow> tags" where
  \<comment> \<open>\<open>way.get("tags", {})\<close>\<close>
  "way_tags_of way = (case way of Way _ _ t \<Rightarrow> tags_of t | _ \<Rightarrow> Map.empty)"

definition build_way :: "(int \<rightharpoonup> coord) \<Rightarrow> int \<Rightarrow> element \<Rightarrow> building_info option" where
  \<comment> \<open>one round of the second loop up to \<open>building_info\<close>; \<open>None\<close> is the \<open>continue\<close>\<close>
  "build_way nodes wid way =
     (let coordinates = ensure_closed_ring (resolve_refs nodes (node_refs_of way) [])
      in if length coordinates < 4 then None
         else
           let tags = way_tags_of way;
               height = resolve_height tags;
               addr = format_address tags
           in Some \<lparr>way_id = wid, outline = coordinates, height_m = height, address = addr\<rparr>)"

record loop_state =
  results :: "building_info list"
  files :: "string list"
  written :: "(string \<times> json list) list"
  \<comment> \<open>\<open>written\<close>: the documents handed to \<open>json.dump\<close>, with the base name of their file\<close>

definition czml_name :: "int \<Rightarrow> string" where
  "czml_name wid = ''way_'' @ str_int wid @ ''.czml''"

definition emit :: "bool \<Rightarrow> building_info \<Rightarrow> loop_state \<Rightarrow> loop_state" where
  \<comment> \<open>the rest of the round: the record is appended, and the document is built from the
      record's own fields when CZML output is on\<close>
  "emit output_czml info st =
     (let st1 = st\<lparr>results := results st @ [info]\<rparr>
      in if output_czml
         then st1\<lparr>written := written st1 @
                    [(czml_name (way_id info),
                      build_czml_document (way_id info) (outline info) (height_m info))],
                  files := files st1 @ [czml_name (way_id info)]\<rparr>
         else st1)"

fun process_ways ::
  "bool \<Rightarrow> (int \<rightharpoonup> coord) \<Rightarrow> (int \<times> element) list \<Rightarrow> loop_state \<Rightarrow> loop_state" where
  "process_ways output_czml nodes [] st = st"
| "process_ways output_czml nodes ((wid, way) # rest) st =
     (case build_way nodes wid way of
        None \<Rightarrow> process_ways output_czml nodes rest st
      | Some info \<Rightarrow> process_ways output_czml nodes rest (emit output_czml info st))"

definition fetch_osm_buildings ::
  "string list \<Rightarrow> element list option option \<Rightarrow> bool \<Rightarrow>
   error + fetch_result \<times> (string \<times> json list) list" where
  \<comment> \<open>\<open>errors\<close> and \<open>payload\<close> are what the loading and the requests left behind: no payload
      at all, a payload without "elements", or the element list. The result is the
      returned dictionary and the documents written. The creation of the directory and
      the manifest file, which lists \<open>czml_files\<close> again, are left out.\<close>
  "fetch_osm_buildings errors payload output_czml =
     (case payload of
        None \<Rightarrow>
          Inl (OverpassError
                 (if errors \<noteq> [] then join ''; '' errors
                  else ''Overpass API returned no payload''))
      | Some None \<Rightarrow>
          Inl (OverpassError
                 (''Invalid Overpass API response: missing '' @
                  [CHR 0x27] @ ''elements'' @ [CHR 0x27]))
      | Some (Some els) \<Rightarrow>
          (let (nodes, blds) = index_elements els Map.empty [];
               st = process_ways output_czml nodes blds
                      \<lparr>results = [], files = [], written = []\<rparr>
           in Inr (\<lparr>count = length (results st),
                     buildings = results st,
                     czml_files = (if output_czml then Some (files st) else None)\<rparr>,
                   written st)))"

subsection \<open>Notions used to state the properties\<close>

definition node_index :: "element list \<Rightarrow> (int \<rightharpoonup> coord)" where
  \<comment> \<open>the dict \<open>nodes\<close> after the first loop\<close>
  "node_index els = fst (index_elements els Map.empty [])"

definition building_index :: "element list \<Rightarrow> (int \<times> element) list" where
  \<comment> \<open>the dict \<open>buildings\<close> after the first loop, in the order of \<open>buildings.items()\<close>\<close>
  "building_index els = snd (index_elements els Map.empty [])"

fun is_node :: "int \<Rightarrow> element \<Rightarrow> bool" where
  "is_node i (Node j la lo) = (j = i)"
| "is_node i (Way j ns t) = False"
| "is_node i Other = False"

fun is_building_way :: "int \<Rightarrow> element \<Rightarrow> bool" where
  "is_building_way i (Node j la lo) = False"
| "is_building_way i (Way j ns t) = (j = i \<and> is_building t)"
| "is_building_way i Other = False"

definition assembled :: "element list \<Rightarrow> building_info list" where
  \<comment> \<open>the records of the ways of \<open>buildings\<close> that are not skipped, in the order of the
      second loop\<close>
  "assembled els =
     List.map_filter (\<lambda>(wid, way). build_way (node_index els) wid way) (building_index els)"

definition document_of :: "building_info \<Rightarrow> string \<times> json list" where
  \<comment> \<open>the file name and the document of a record\<close>
  "document_of r =
     (czml_name (way_id r), build_czml_document (way_id r) (outline r) (height_m r))"

definition address_values :: "tags \<Rightarrow> string list" where
  \<comment> \<open>in the words of the specification: the values of the listed tags, in the order
      of the list, without the absent and the empty ones\<close>
  "address_values tags =
     filter (\<lambda>v. v \<noteq> []) (concat (map (\<lambda>k. case tags k of None \<Rightarrow> [] | Some v \<Rightarrow> [v])
       ADDRESS_FIELDS))"

definition decimal_token :: "string \<Rightarrow> string \<Rightarrow> string \<Rightarrow> string" where
  \<comment> \<open>a signed decimal number as text: sign, integer digits and fraction digits (a dot is
      written only before a non-empty fraction)\<close>
  "decimal_token sg ip fp = sg @ ip @ (if fp = [] then [] else CHR ''.'' # fp)"

definition decimal_value :: "string \<Rightarrow> string \<Rightarrow> string \<Rightarrow> real" where
  \<comment> \<open>the number that text denotes\<close>
  "decimal_value sg ip fp =
     (if sg = ''-'' then - 1 else 1) * real (digits_value (ip @ fp)) / 10 ^ length fp"

section \<open>Properties\<close>

subsection \<open>Evaluation on concrete inputs\<close>

lemmas parse_defs = clean_def match_here_def match_unsigned_def is_digit_def is_sign_def
  py_float_def float_digits_def digits_value_def digit_value_def

lemmas height_defs = resolve_height_def normalize_height_def py_or_def or_empty_def

lemmas packet_defs = build_czml_document_def document_of_def jfield_def

lemmas loop_defs = fetch_osm_buildings_def build_way_def ensure_closed_ring_def
  node_refs_of_def way_tags_of_def tags_of_def is_building_def emit_def format_address_def
  ADDRESS_FIELDS_def

subsection \<open>The loops in closed form\<close>

lemma resolve_refs_acc:
  "resolve_refs nodes refs acc = acc @ List.map_filter nodes refs"
  by (induction refs arbitrary: acc) (auto simp: List.map_filter_simps split: option.splits)

lemma collect_parts_acc:
  "collect_parts tags keys acc = acc @ filter (\<lambda>v. v \<noteq> []) (List.map_filter tags keys)"
  by (induction keys arbitrary: acc) (auto simp: List.map_filter_simps split: option.splits)

lemma extend_cartographic_acc:
  "extend_cartographic cs acc = acc @ concat (map (\<lambda>c. [lng c, lat c, 0]) cs)"
  by (induction cs arbitrary: acc) auto

lemma ensure_closed_ring_closed:
  "nodes \<noteq> [] \<Longrightarrow> hd (ensure_closed_ring nodes) = last (ensure_closed_ring nodes)"
  by (auto simp: ensure_closed_ring_def)

lemma process_ways_results:
  "results (process_ways oc nodes blds st) =
     results st @ List.map_filter (\<lambda>(wid, way). build_way nodes wid way) blds"
  by (induction blds arbitrary: st)
     (auto simp: emit_def List.map_filter_simps Let_def split: option.splits)

lemma process_ways_written:
  "written (process_ways oc nodes blds st) =
     written st @ (if oc then map document_of
        (List.map_filter (\<lambda>(wid, way). build_way nodes wid way) blds) else [])"
  by (induction blds arbitrary: st)
     (auto simp: emit_def List.map_filter_simps Let_def document_of_def split: option.splits)

lemma process_ways_files:
  "files (process_ways oc nodes blds st) =
     files st @ (if oc then map (\<lambda>r. czml_name (way_id r))
        (List.map_filter (\<lambda>(wid, way). build_way nodes wid way) blds) else [])"
  by (induction blds arbitrary: st)
     (auto simp: emit_def List.map_filter_simps Let_def split: option.splits)

lemma fetch_elements:
  "fetch_osm_buildings errs (Some (Some els)) oc =
     Inr (\<lparr>count = length (assembled els), buildings = assembled els,
            czml_files = (if oc then Some (map (\<lambda>r. czml_name (way_id r)) (assembled els)) else None)\<rparr>,
          if oc then map document_of (assembled els) else [])"
  by (simp add: fetch_osm_buildings_def assembled_def node_index_def building_index_def
        process_ways_results process_ways_written process_ways_files split_beta)

lemma index_elements_append:
  "index_elements (xs @ ys) n b =
     index_elements ys (fst (index_elements xs n b)) (snd (index_elements xs n b))"
proof (induction xs arbitrary: n b)
  case Nil
  then show ?case by simp
next
  case (Cons e xs)
  then show ?case by (cases e) (simp_all add: fun_upd_def)
qed

lemma index_nodes_later:
  "\<not> list_ex (is_node i) es \<Longrightarrow> fst (index_elements es n b) i = n i"
  by (induction es n b rule: index_elements.induct) auto

lemma index_buildings_later:
  "\<not> list_ex (is_building_way i) es \<Longrightarrow> map_of (snd (index_elements es n b)) i = map_of b i"
  by (induction es n b rule: index_elements.induct) (auto simp: update_conv')

lemma index_buildings_distinct:
  "distinct (map fst b) \<Longrightarrow> distinct (map fst (snd (index_elements es n b)))"
  by (induction es n b rule: index_elements.induct) (auto simp: distinct_update)

lemma build_way_id: "build_way nodes wid way = Some r \<Longrightarrow> way_id r = wid"
  by (auto simp: build_way_def Let_def split: if_splits)

lemma build_way_outline:
  "build_way nodes wid way = Some r \<Longrightarrow>
     hd (outline r) = last (outline r) \<and> 4 \<le> length (outline r)"
  by (auto simp: build_way_def Let_def ensure_closed_ring_def split: if_splits)

lemma map_filter_way_ids:
  "map way_id (List.map_filter (\<lambda>(wid, way). build_way nodes wid way) blds) =
     map fst (filter (\<lambda>(wid, way). build_way nodes wid way \<noteq> None) blds)"
  by (induction blds) (auto simp: List.map_filter_simps build_way_id split: option.splits)

lemma assembled_distinct: "distinct (map way_id (assembled els))"
  unfolding assembled_def map_filter_way_ids building_index_def
  by (rule distinct_map_filter) (simp add: index_buildings_distinct)

lemma assembled_origin:
  assumes "r \<in> set (assembled els)"
  shows "\<exists>way. map_of (building_index els) (way_id r) = Some way \<and>
           build_way (node_index els) (way_id r) way = Some r"
proof -
  from assms obtain wid way where
    m: "(wid, way) \<in> set (building_index els)" and b: "build_way (node_index els) wid way = Some r"
    by (auto simp: assembled_def List.map_filter_def)
  have d: "distinct (map fst (building_index els))"
    by (simp add: building_index_def index_buildings_distinct)
  have "map_of (building_index els) wid = Some way" by (rule map_of_is_SomeI [OF d m])
  with b build_way_id [OF b] show ?thesis by auto
qed

lemma map_filter_concat:
  "List.map_filter f xs = concat (map (\<lambda>k. case f k of None \<Rightarrow> [] | Some v \<Rightarrow> [v]) xs)"
  by (induction xs) (auto simp: List.map_filter_simps split: option.splits)

lemma join_nonempty:
  "parts \<noteq> [] \<Longrightarrow> \<forall>p \<in> set parts. p \<noteq> [] \<Longrightarrow> join sep parts \<noteq> []"
  by (cases "(sep, parts)" rule: join.cases) auto

lemma collect_parts_values:
  "collect_parts tags ADDRESS_FIELDS [] = address_values tags"
  by (simp add: collect_parts_acc address_values_def map_filter_concat)

lemma resolve_refs_present:
  "resolve_refs nodes refs [] = map (\<lambda>i. the (nodes i)) (filter (\<lambda>i. nodes i \<noteq> None) refs)"
  by (simp add: resolve_refs_acc List.map_filter_def comp_def)

lemma ensure_closed_ring_length:
  "length (ensure_closed_ring cs) \<le> Suc (length cs)"
  by (simp add: ensure_closed_ring_def)

lemma build_way_degenerate:
  "length (ensure_closed_ring (resolve_refs nodes (node_refs_of way) [])) < 4 \<Longrightarrow>
     build_way nodes wid way = None"
  by (simp add: build_way_def Let_def)

lemma build_way_height:
  "build_way nodes wid way = Some r \<Longrightarrow> height_m r = resolve_height (way_tags_of way)"
  by (auto simp: build_way_def Let_def split: if_splits)

lemma node_index_last:
  assumes "els = pre @ Node i la lo # post" "\<not> list_ex (is_node i) post"
  shows "node_index els i = Some \<lparr>lat = la, lng = lo\<rparr>"
proof -
  have "node_index els i =
      fst (index_elements post
        ((fst (index_elements pre Map.empty []))(i \<mapsto> \<lparr>lat = la, lng = lo\<rparr>))
        (snd (index_elements pre Map.empty []))) i"
    by (simp add: node_index_def assms(1) index_elements_append fun_upd_def)
  also have "\<dots> = ((fst (index_elements pre Map.empty []))(i \<mapsto> \<lparr>lat = la, lng = lo\<rparr>)) i"
    by (rule index_nodes_later [OF assms(2)])
  finally show ?thesis by simp
qed

lemma building_index_last:
  assumes "els = pre @ Way i ns t # post" "is_building t"
    "\<not> list_ex (is_building_way i) post"
  shows "map_of (building_index els) i = Some (Way i ns t)"
proof -
  have "map_of (building_index els) i =
      map_of (snd (index_elements post (fst (index_elements pre Map.empty []))
        (AList.update i (Way i ns t) (snd (index_elements pre Map.empty []))))) i"
    by (simp add: building_index_def assms(1,2) index_elements_append)
  also have "\<dots> = map_of (AList.update i (Way i ns t) (snd (index_elements pre Map.empty []))) i"
    by (rule index_buildings_later [OF assms(3)])
  finally show ?thesis by (simp add: update_conv')
qed

lemma short_ring_few_vertices:
  assumes "length (ensure_closed_ring cs) < 4"
  shows "card (set cs) < 3"
proof (cases "cs = []")
  case True
  then show ?thesis by simp
next
  case False
  show ?thesis
  proof (cases "hd cs = last cs")
    case open_ring: False
    with assms False have "length cs < 3" by (simp add: ensure_closed_ring_def)
    with card_length [of cs] show ?thesis by simp
  next
    case closed: True
    with assms False have len: "length cs < 4" by (simp add: ensure_closed_ring_def)
    show ?thesis
    proof (cases "butlast cs = []")
      case True
      with False have "cs = [last cs]" by (metis append_butlast_last_id append_Nil)
      then have "set cs = {last cs}" by (metis list.simps(15) empty_set)
      then show ?thesis by simp
    next
      case ne: False
      have "hd cs = hd (butlast cs)" using ne False by (cases cs) auto
      with ne closed have "last cs \<in> set (butlast cs)" by (metis hd_in_set)
      moreover have "set cs = insert (last cs) (set (butlast cs))"
        using False by (metis append_butlast_last_id set_append list.simps(15) empty_set
            Un_insert_right sup_bot.right_neutral)
      ultimately have "set cs = set (butlast cs)" by auto
      with card_length [of "butlast cs"] have "card (set cs) \<le> length (butlast cs)"
        by metis
      with len show ?thesis by simp
    qed
  qed
qed

subsection \<open>The pattern and the conversion\<close>

lemma digit_not_sign: "is_digit c \<Longrightarrow> \<not> is_sign c"
  by (auto simp: is_digit_def is_sign_def)

lemma digit_not_dot: "is_digit c \<Longrightarrow> c \<noteq> CHR ''.''"
  by (auto simp: is_digit_def)

lemma dot_not_sign: "\<not> is_sign CHR ''.''"
  by (simp add: is_sign_def)

lemma take_digits_append:
  "list_all is_digit xs \<Longrightarrow> ys = [] \<or> \<not> is_digit (hd ys) \<Longrightarrow> takeWhile is_digit (xs @ ys) = xs"
  by (induction xs) (auto simp: takeWhile_eq_Nil_iff)

lemma drop_digits_append:
  "list_all is_digit xs \<Longrightarrow> ys = [] \<or> \<not> is_digit (hd ys) \<Longrightarrow> dropWhile is_digit (xs @ ys) = ys"
  by (induction xs) (auto simp: dropWhile_eq_self_iff)

lemma match_unsigned_nondigit:
  "\<not> is_digit c \<Longrightarrow> match_unsigned (c # xs) =
     (if c = CHR ''.'' \<and> takeWhile is_digit xs \<noteq> [] then Some (c # takeWhile is_digit xs) else None)"
  by (simp add: match_unsigned_def)

lemma match_unsigned_no_digit:
  "\<not> list_ex is_digit cs \<Longrightarrow> match_unsigned cs = None"
proof (cases cs)
  case Nil
  then show ?thesis by (simp add: match_unsigned_def)
next
  case (Cons c xs)
  assume nd: "\<not> list_ex is_digit cs"
  with Cons have "\<not> is_digit c" and "takeWhile is_digit xs = []"
    by (auto simp: takeWhile_eq_Nil_iff list_ex_iff)
  with Cons show ?thesis by (simp add: match_unsigned_nondigit)
qed

lemma match_here_no_digit:
  "\<not> list_ex is_digit cs \<Longrightarrow> match_here cs = None"
  by (cases cs) (auto simp: match_here_def match_unsigned_no_digit)

lemma re_search_no_digit:
  "\<not> list_ex is_digit cs \<Longrightarrow> re_search cs = None"
  by (induction cs) (auto simp: match_here_no_digit)

lemma match_unsigned_digit:
  "is_digit c \<Longrightarrow> match_unsigned (c # cs) \<noteq> None"
  by (auto simp: match_unsigned_def Let_def split: list.splits)

lemma match_here_digit:
  "is_digit c \<Longrightarrow> match_here (c # cs) \<noteq> None"
  by (auto simp: match_here_def match_unsigned_digit digit_not_sign)

lemma re_search_digit:
  "list_ex is_digit cs \<Longrightarrow> re_search cs \<noteq> None"
proof (induction cs)
  case Nil
  then show ?case by simp
next
  case (Cons c cs)
  show ?case
  proof (cases "match_here (c # cs)")
    case None
    then have "\<not> is_digit c" using match_here_digit by blast
    with Cons.prems have "list_ex is_digit cs" by simp
    with Cons.IH None show ?thesis by simp
  next
    case (Some m)
    then show ?thesis by simp
  qed
qed


lemma not_digit_dot [simp]: "\<not> is_digit CHR ''.''"
  by (simp add: is_digit_def)

lemma take_digits_dot:
  "list_all is_digit xs \<Longrightarrow> takeWhile is_digit (xs @ CHR ''.'' # ys) = xs"
  by (simp add: take_digits_append)

lemma drop_digits_dot:
  "list_all is_digit xs \<Longrightarrow> dropWhile is_digit (xs @ CHR ''.'' # ys) = CHR ''.'' # ys"
  by (simp add: drop_digits_append)

lemma take_digits_all: "list_all is_digit xs \<Longrightarrow> takeWhile is_digit xs = xs"
  using take_digits_append [of xs "[]"] by simp

lemma drop_digits_all: "list_all is_digit xs \<Longrightarrow> dropWhile is_digit xs = []"
  using drop_digits_append [of xs "[]"] by simp

lemma float_digits_token:
  assumes "list_all is_digit ip" "list_all is_digit fp" "\<not> (ip = [] \<and> fp = [])"
  shows "float_digits neg (ip @ (if fp = [] then [] else CHR ''.'' # fp)) =
     Some ((if neg then - 1 else 1) * real (digits_value (ip @ fp)) / 10 ^ length fp)"
  using assms
  by (simp add: float_digits_def take_digits_dot drop_digits_dot take_digits_all drop_digits_all)

lemma py_float_token:
  assumes "sg = [] \<or> sg = ''-'' \<or> sg = ''+''"
    and "list_all is_digit ip" "list_all is_digit fp" "\<not> (ip = [] \<and> fp = [])"
  shows "py_float (decimal_token sg ip fp) = Some (decimal_value sg ip fp)"
proof -
  let ?u = "ip @ (if fp = [] then [] else CHR ''.'' # fp)"
  have u: "?u \<noteq> []" using assms(4) by auto
  have hd_u: "\<not> is_sign (hd ?u)"
    using assms(2,4) by (cases ip) (auto simp: is_sign_def is_digit_def)
  from assms(1) show ?thesis
  proof (elim disjE)
    assume "sg = []"
    with u hd_u have "py_float (decimal_token sg ip fp) = float_digits False ?u"
      by (cases ?u) (auto simp: py_float_def decimal_token_def is_sign_def)
    then show ?thesis
      using float_digits_token [OF assms(2-4), of False] \<open>sg = []\<close>
      by (simp add: decimal_value_def)
  next
    assume "sg = ''-''"
    then have "py_float (decimal_token sg ip fp) = float_digits True ?u"
      by (simp add: py_float_def decimal_token_def is_sign_def)
    then show ?thesis
      using float_digits_token [OF assms(2-4), of True] \<open>sg = ''-''\<close>
      by (simp add: decimal_value_def)
  next
    assume "sg = ''+''"
    then have "py_float (decimal_token sg ip fp) = float_digits False ?u"
      by (simp add: py_float_def decimal_token_def is_sign_def)
    then show ?thesis
      using float_digits_token [OF assms(2-4), of False] \<open>sg = ''+''\<close>
      by (simp add: decimal_value_def)
  qed
qed


lemma match_unsigned_token:
  assumes "list_all is_digit ip" "list_all is_digit fp" "\<not> (ip = [] \<and> fp = [])"
    and "rest = [] \<or> (\<not> is_digit (hd rest) \<and> hd rest \<noteq> CHR ''.'')"
  shows "match_unsigned (decimal_token [] ip fp @ rest) = Some (decimal_token [] ip fp)"
proof (cases "fp = []")
  case True
  with assms(3) have ip: "ip \<noteq> []" by simp
  have r: "rest = [] \<or> \<not> is_digit (hd rest)" using assms(4) by blast
  have t: "takeWhile is_digit (ip @ rest) = ip"
    by (rule take_digits_append [OF assms(1) r])
  have d: "dropWhile is_digit (ip @ rest) = rest"
    by (rule drop_digits_append [OF assms(1) r])
  show ?thesis
    using True ip assms(4)
    by (auto simp: match_unsigned_def decimal_token_def t d split: list.split)
next
  case False
  have r: "rest = [] \<or> \<not> is_digit (hd rest)" using assms(4) by blast
  have fr: "takeWhile is_digit (fp @ rest) = fp"
    by (rule take_digits_append [OF assms(2) r])
  have "match_unsigned (ip @ CHR ''.'' # fp @ rest) = Some (ip @ CHR ''.'' # fp)"
    using assms(1) False
    by (simp add: match_unsigned_def take_digits_dot drop_digits_dot fr)
  with False show ?thesis by (simp add: decimal_token_def)
qed

lemma match_here_token:
  assumes "sg = [] \<or> sg = ''-'' \<or> sg = ''+''"
    and "list_all is_digit ip" "list_all is_digit fp" "\<not> (ip = [] \<and> fp = [])"
    and "rest = [] \<or> (\<not> is_digit (hd rest) \<and> hd rest \<noteq> CHR ''.'')"
  shows "match_here (decimal_token sg ip fp @ rest) = Some (decimal_token sg ip fp)"
proof -
  define u where "u = ip @ (if fp = [] then [] else CHR ''.'' # fp)"
  have tok: "\<And>s. decimal_token s ip fp = s @ u" by (simp add: decimal_token_def u_def)
  have mu: "match_unsigned (u @ rest) = Some u"
    using match_unsigned_token [OF assms(2-5)] by (simp add: tok)
  have "u \<noteq> []" using assms(4) by (auto simp: u_def)
  then obtain c cs where u: "u = c # cs" by (cases u) auto
  have ns: "\<not> is_sign c"
    using assms(2,4) u by (cases ip) (auto simp: u_def is_sign_def is_digit_def split: if_splits)
  from assms(1) show ?thesis
  proof (elim disjE)
    assume "sg = []"
    then have "match_here (decimal_token sg ip fp @ rest) = match_unsigned (u @ rest)"
      using ns by (simp add: tok u match_here_def)
    with mu \<open>sg = []\<close> show ?thesis by (simp add: tok)
  next
    assume "sg = ''-''"
    with mu show ?thesis by (simp add: match_here_def tok is_sign_def)
  next
    assume "sg = ''+''"
    with mu show ?thesis by (simp add: match_here_def tok is_sign_def)
  qed
qed

lemma re_search_token:
  assumes "sg = [] \<or> sg = ''-'' \<or> sg = ''+''"
    and "list_all is_digit ip" "list_all is_digit fp" "\<not> (ip = [] \<and> fp = [])"
    and "rest = [] \<or> (\<not> is_digit (hd rest) \<and> hd rest \<noteq> CHR ''.'')"
  shows "re_search (decimal_token sg ip fp @ rest) = Some (decimal_token sg ip fp)"
proof -
  have ne: "decimal_token sg ip fp @ rest \<noteq> []"
    using assms(4) by (auto simp: decimal_token_def)
  then obtain c cs where cs: "decimal_token sg ip fp @ rest = c # cs"
    by (cases "decimal_token sg ip fp @ rest") auto
  show ?thesis
    using match_here_token [OF assms] by (simp add: cs)
qed

lemma match_here_skip:
  assumes "\<not> is_digit c" "c \<noteq> CHR ''.'' \<or> xs = [] \<or> \<not> is_digit (hd xs)"
    and "\<not> is_sign c \<or> match_unsigned xs = None"
  shows "match_here (c # xs) = None"
proof -
  have "takeWhile is_digit xs = []" if "c = CHR ''.''"
    using assms(2) that by (cases xs) auto
  then have "match_unsigned (c # xs) = None"
    using assms(1) by (auto simp: match_unsigned_nondigit)
  with assms(3) show ?thesis by (auto simp: match_here_def)
qed

lemma re_search_skip:
  assumes "\<not> list_ex is_digit pre"
    and "pre = [] \<or> (last pre \<noteq> CHR ''.'' \<and> \<not> is_sign (last pre))"
  shows "re_search (pre @ s) = re_search s"
  using assms
proof (induction pre)
  case Nil
  then show ?case by simp
next
  case (Cons c pre)
  note prems = Cons.prems
  have c: "\<not> is_digit c" using Cons.prems(1) by simp
  have tl: "\<not> list_ex is_digit pre" using Cons.prems(1) by simp
  have "match_here (c # pre @ s) = None"
  proof (cases pre)
    case Nil
    with Cons.prems(2) have "c \<noteq> CHR ''.''" "\<not> is_sign c" by auto
    with c show ?thesis by (intro match_here_skip) auto
  next
    case (Cons d pre')
    have d: "\<not> is_digit d" using tl Cons by simp
    have "match_unsigned (d # pre' @ s) = None"
    proof (cases pre')
      case Nil
      with \<open>pre = d # pre'\<close> prems(2) have "d \<noteq> CHR ''.''" by simp
      with d show ?thesis by (simp add: match_unsigned_nondigit)
    next
      case (Cons e pre'')
      then have "\<not> is_digit e" using tl \<open>pre = d # pre'\<close> by simp
      with d Cons show ?thesis by (simp add: match_unsigned_nondigit)
    qed
    with c d Cons show ?thesis by (intro match_here_skip) auto
  qed
  moreover have "pre = [] \<or> (last pre \<noteq> CHR ''.'' \<and> \<not> is_sign (last pre))"
    using Cons.prems(2) by (cases pre) auto
  ultimately show ?case using Cons.IH tl by simp
qed


lemma digits_takeWhile: "list_all is_digit (takeWhile is_digit cs)"
  by (auto simp: list_all_iff dest: set_takeWhileD)

lemma match_unsigned_wf:
  assumes "match_unsigned cs = Some m"
  shows "\<exists>ip fp post. m = decimal_token [] ip fp \<and> list_all is_digit ip \<and>
           list_all is_digit fp \<and> \<not> (ip = [] \<and> fp = []) \<and> cs = m @ post"
proof -
  define ds where "ds = takeWhile is_digit cs"
  define rest where "rest = dropWhile is_digit cs"
  have cs: "cs = ds @ rest" by (simp add: ds_def rest_def)
  have ds: "list_all is_digit ds" by (simp add: ds_def digits_takeWhile)
  show ?thesis
  proof (cases "\<exists>r'. rest = CHR ''.'' # r' \<and> takeWhile is_digit r' \<noteq> []")
    case True
    then obtain r' where r: "rest = CHR ''.'' # r'" and f: "takeWhile is_digit r' \<noteq> []"
      by blast
    from assms r f have m: "m = ds @ CHR ''.'' # takeWhile is_digit r'"
      by (simp add: match_unsigned_def ds_def [symmetric] rest_def [symmetric])
    have "cs = m @ dropWhile is_digit r'" by (simp add: cs r m)
    with m f ds show ?thesis
      by (intro exI [of _ ds] exI [of _ "takeWhile is_digit r'"] exI [of _ "dropWhile is_digit r'"])
         (simp add: decimal_token_def digits_takeWhile)
  next
    case False
    with assms have m: "m = ds" and ne: "ds \<noteq> []"
      by (auto simp: match_unsigned_def ds_def [symmetric] rest_def [symmetric]
               split: list.splits if_splits)
    with cs ds show ?thesis
      by (intro exI [of _ ds] exI [of _ "[]"] exI [of _ rest]) (simp add: decimal_token_def)
  qed
qed

lemma match_here_wf:
  assumes "match_here cs = Some m"
  shows "\<exists>sg ip fp post. m = decimal_token sg ip fp \<and> (sg = [] \<or> sg = ''-'' \<or> sg = ''+'') \<and>
           list_all is_digit ip \<and> list_all is_digit fp \<and> \<not> (ip = [] \<and> fp = []) \<and>
           cs = m @ post"
proof (cases cs)
  case Nil
  with assms show ?thesis by (simp add: match_here_def)
next
  case (Cons c cs')
  show ?thesis
  proof (cases "is_sign c \<and> match_unsigned cs' \<noteq> None")
    case True
    then obtain u where u: "match_unsigned cs' = Some u" by auto
    with True assms Cons have m: "m = c # u" by (simp add: match_here_def)
    from match_unsigned_wf [OF u] obtain ip fp post where
      w: "u = decimal_token [] ip fp" "list_all is_digit ip" "list_all is_digit fp"
         "\<not> (ip = [] \<and> fp = [])" "cs' = u @ post"
      by blast
    have "m = decimal_token [c] ip fp" using m w(1) by (simp add: decimal_token_def)
    moreover have "[c] = ''-'' \<or> [c] = ''+''" using True by (simp add: is_sign_def)
    moreover have "cs = m @ post" using Cons m w(5) by simp
    ultimately show ?thesis using w(2-4) by blast
  next
    case False
    with assms Cons have "match_unsigned cs = Some m"
      by (auto simp: match_here_def split: if_splits option.splits)
    from match_unsigned_wf [OF this] show ?thesis by blast
  qed
qed

lemma re_search_leftmost:
  assumes "re_search v = Some m"
  shows "\<exists>pre post. v = pre @ m @ post \<and> match_here (m @ post) = Some m \<and>
           (\<forall>k < length pre. match_here (drop k v) = None)"
  using assms
proof (induction v)
  case Nil
  then show ?case by simp
next
  case (Cons c cs)
  show ?case
  proof (cases "match_here (c # cs)")
    case None
    with Cons.prems have "re_search cs = Some m" by simp
    from Cons.IH [OF this] obtain pre post where
      p: "cs = pre @ m @ post" "match_here (m @ post) = Some m"
         "\<forall>k < length pre. match_here (drop k cs) = None"
      by blast
    have "\<forall>k < length (c # pre). match_here (drop k (c # cs)) = None"
    proof (intro allI impI)
      fix k assume k: "k < length (c # pre)"
      show "match_here (drop k (c # cs)) = None"
        using None p(3) k by (cases k) auto
    qed
    with p(1,2) show ?thesis
      by (intro exI [of _ "c # pre"] exI [of _ post]) simp
  next
    case (Some m')
    with Cons.prems have "m' = m" by simp
    with Some match_here_wf [OF Some] obtain post where "c # cs = m @ post" by blast
    with Some \<open>m' = m\<close> show ?thesis
      by (intro exI [of _ "[]"] exI [of _ post]) simp
  qed
qed

lemma clean_None_iff: "clean v = None \<longleftrightarrow> \<not> list_ex is_digit v"
proof (cases "re_search v")
  case None
  then show ?thesis using re_search_digit [of v] by (auto simp: clean_def)
next
  case (Some m)
  then have d: "list_ex is_digit v" using re_search_no_digit [of v] by auto
  then have "v \<noteq> []" by auto
  from re_search_leftmost [OF Some] obtain pre post where "match_here (m @ post) = Some m"
    by blast
  from match_here_wf [OF this] py_float_token have "py_float m \<noteq> None" by force
  with Some d \<open>v \<noteq> []\<close> show ?thesis by (auto simp: clean_def)
qed


subsection \<open>Height resolution\<close>

text \<open>
  C1. The claim: when the "height" tag is present and non-empty but holds no parseable
  number, resolution falls through to "building:height", and a parseable number there
  is the resolved height. The code chooses between the two tags with \<open>or\<close>, before any
  parsing: a non-empty "height" text is the only one parsed, and "building:height" is
  read only when "height" is absent or empty. With "height" = "tall" and
  "building:height" = "12" the resolved height is absent (or comes from the levels),
  although "12" parses and is used as soon as "height" is absent.
\<close>

theorem unparseable_height_hides_building_height:
  "clean ''tall'' = None \<and> clean ''12'' = Some 12 \<and>
   resolve_height [''height'' \<mapsto> ''tall'', ''building:height'' \<mapsto> ''12''] = None \<and>
   resolve_height [''height'' \<mapsto> ''tall'', ''building:height'' \<mapsto> ''12'',
     ''building:levels'' \<mapsto> ''2''] = Some 6 \<and>
   resolve_height [''building:height'' \<mapsto> ''12''] = Some 12"
  by (simp add: height_defs parse_defs)

text \<open>
  C3. For every tag mapping with a "height" tag and a "building:levels" tag that both
  hold a parseable number, the resolved height is the number of the "height" tag; for a
  mapping with neither "height" nor "building:height" and a "building:levels" tag holding
  the parseable number \<open>n\<close>, the resolved height is \<open>n\<close> times 3; "building:levels" = "5"
  alone resolves to 15.
\<close>

theorem height_wins_over_levels:
  "(\<forall>hs ls h l. tags ''height'' = Some hs \<and> clean hs = Some h \<and>
       tags ''building:levels'' = Some ls \<and> clean ls = Some l \<longrightarrow>
       resolve_height tags = Some h) \<and>
   (\<forall>ls n. tags ''height'' = None \<and> tags ''building:height'' = None \<and>
       tags ''building:levels'' = Some ls \<and> clean ls = Some n \<longrightarrow>
       resolve_height tags = Some (n * 3)) \<and>
   resolve_height [''building:levels'' \<mapsto> ''5''] = Some 15"
proof (intro conjI allI impI)
  fix hs ls h l
  assume a: "tags ''height'' = Some hs \<and> clean hs = Some h \<and>
    tags ''building:levels'' = Some ls \<and> clean ls = Some l"
  then have "hs \<noteq> []" by (auto simp: clean_def)
  with a show "resolve_height tags = Some h" by (simp add: height_defs)
next
  fix ls n
  assume "tags ''height'' = None \<and> tags ''building:height'' = None \<and>
    tags ''building:levels'' = Some ls \<and> clean ls = Some n"
  then show "resolve_height tags = Some (n * 3)"
    by (simp add: height_defs clean_def)
next
  show "resolve_height [''building:levels'' \<mapsto> ''5''] = Some 15"
    by (simp add: height_defs parse_defs)
qed

theorem height_wins_over_levels_witness:
  "clean ''9 m'' = Some 9 \<and> clean ''5'' = Some 5 \<and>
   resolve_height [''height'' \<mapsto> ''9 m'', ''building:levels'' \<mapsto> ''5''] = Some 9 \<and>
   resolve_height [''building:levels'' \<mapsto> ''5'', ''building'' \<mapsto> ''yes''] = Some (5 * 3)"
proof -
  have c9: "clean ''9 m'' = Some 9" and c5: "clean ''5'' = Some 5"
    by (simp_all add: parse_defs)
  have "resolve_height [''height'' \<mapsto> ''9 m'', ''building:levels'' \<mapsto> ''5''] = Some 9"
    using height_wins_over_levels
      [of "[''height'' \<mapsto> ''9 m'', ''building:levels'' \<mapsto> ''5'']", THEN conjunct1,
       rule_format, of "''9 m''" 9 "''5''" 5]
      c9 c5 by simp
  moreover
  have "resolve_height [''building:levels'' \<mapsto> ''5'', ''building'' \<mapsto> ''yes''] = Some (5 * 3)"
    using height_wins_over_levels
      [of "[''building:levels'' \<mapsto> ''5'', ''building'' \<mapsto> ''yes'']", THEN conjunct2,
       THEN conjunct1, rule_format, of "''5''" 5]
      c5 by simp
  ultimately show ?thesis using c9 c5 by simp
qed

subsection \<open>Numeric token parsing\<close>

text \<open>
  C8. Numeric token parsing takes the first signed decimal number of the text and
  tolerates text around it: "12.5 m" parses to 12.5 and "abc" to nothing. In general
  the result is absent exactly when the text holds no digit; a result is the value of a
  decimal token that stands in the text at the leftmost position where the pattern
  matches; and a decimal token after text without digits (not ending in a sign or a
  dot) and before text that does not go on with a digit or a dot is parsed to its
  value.
\<close>

theorem clean_first_decimal_token:
  "clean ''12.5 m'' = Some 12.5 \<and>
   clean ''abc'' = None \<and>
   (clean v = None \<longleftrightarrow> \<not> list_ex is_digit v) \<and>
   (\<forall>x. clean v = Some x \<longrightarrow>
      (\<exists>pre sg ip fp post.
         v = pre @ decimal_token sg ip fp @ post \<and>
         (sg = [] \<or> sg = ''-'' \<or> sg = ''+'') \<and>
         list_all is_digit ip \<and> list_all is_digit fp \<and> \<not> (ip = [] \<and> fp = []) \<and>
         x = decimal_value sg ip fp \<and>
         (\<forall>k < length pre. match_here (drop k v) = None))) \<and>
   ((sg = [] \<or> sg = ''-'' \<or> sg = ''+'') \<and>
    list_all is_digit ip \<and> list_all is_digit fp \<and> \<not> (ip = [] \<and> fp = []) \<and>
    \<not> list_ex is_digit pre \<and>
    (pre = [] \<or> (last pre \<noteq> CHR ''.'' \<and> \<not> is_sign (last pre))) \<and>
    (rest = [] \<or> (\<not> is_digit (hd rest) \<and> hd rest \<noteq> CHR ''.'')) \<longrightarrow>
    clean (pre @ decimal_token sg ip fp @ rest) = Some (decimal_value sg ip fp))"
proof (intro conjI allI impI)
  show "clean ''12.5 m'' = Some 12.5" by (simp add: parse_defs)
  show "clean ''abc'' = None" by (simp add: parse_defs)
  show "clean v = None \<longleftrightarrow> \<not> list_ex is_digit v" by (rule clean_None_iff)
next
  fix x assume x: "clean v = Some x"
  then obtain m where m: "re_search v = Some m" and f: "py_float m = Some x"
    by (auto simp: clean_def split: if_splits option.splits)
  from re_search_leftmost [OF m] obtain pre post where
    p: "v = pre @ m @ post" "match_here (m @ post) = Some m"
       "\<forall>k < length pre. match_here (drop k v) = None"
    by blast
  from match_here_wf [OF p(2)] obtain sg ip fp where
    w: "m = decimal_token sg ip fp" "sg = [] \<or> sg = ''-'' \<or> sg = ''+''"
       "list_all is_digit ip" "list_all is_digit fp" "\<not> (ip = [] \<and> fp = [])"
    by blast
  from py_float_token [OF w(2-5)] f w(1) have "x = decimal_value sg ip fp" by simp
  with p w show "\<exists>pre sg ip fp post.
         v = pre @ decimal_token sg ip fp @ post \<and>
         (sg = [] \<or> sg = ''-'' \<or> sg = ''+'') \<and>
         list_all is_digit ip \<and> list_all is_digit fp \<and> \<not> (ip = [] \<and> fp = []) \<and>
         x = decimal_value sg ip fp \<and>
         (\<forall>k < length pre. match_here (drop k v) = None)"
    by blast
next
  assume a: "(sg = [] \<or> sg = ''-'' \<or> sg = ''+'') \<and>
    list_all is_digit ip \<and> list_all is_digit fp \<and> \<not> (ip = [] \<and> fp = []) \<and>
    \<not> list_ex is_digit pre \<and>
    (pre = [] \<or> (last pre \<noteq> CHR ''.'' \<and> \<not> is_sign (last pre))) \<and>
    (rest = [] \<or> (\<not> is_digit (hd rest) \<and> hd rest \<noteq> CHR ''.''))"
  then have w: "sg = [] \<or> sg = ''-'' \<or> sg = ''+''"
    "list_all is_digit ip" "list_all is_digit fp" "\<not> (ip = [] \<and> fp = [])"
    and pre: "\<not> list_ex is_digit pre"
      "pre = [] \<or> (last pre \<noteq> CHR ''.'' \<and> \<not> is_sign (last pre))"
    and rest: "rest = [] \<or> (\<not> is_digit (hd rest) \<and> hd rest \<noteq> CHR ''.'')"
    by blast+
  have ne: "decimal_token sg ip fp \<noteq> []" using w(4) by (auto simp: decimal_token_def)
  have "re_search (pre @ decimal_token sg ip fp @ rest) = Some (decimal_token sg ip fp)"
    using re_search_skip [OF pre] re_search_token [OF w rest] by simp
  with ne py_float_token [OF w]
  show "clean (pre @ decimal_token sg ip fp @ rest) = Some (decimal_value sg ip fp)"
    by (simp add: clean_def)
qed

theorem clean_first_decimal_token_witness:
  "list_all is_digit ''12'' \<and> list_all is_digit ''5'' \<and> \<not> list_ex is_digit ''about '' \<and>
   \<not> is_digit (hd '' m'') \<and>
   clean (''about '' @ decimal_token ''-'' ''12'' ''5'' @ '' m'') =
     Some (decimal_value ''-'' ''12'' ''5'') \<and>
   ''about '' @ decimal_token ''-'' ''12'' ''5'' @ '' m'' = ''about -12.5 m'' \<and>
   decimal_value ''-'' ''12'' ''5'' = - 12.5"
proof -
  have h: "(''-'' = [] \<or> ''-'' = ''-'' \<or> ''-'' = ''+'') \<and>
    list_all is_digit ''12'' \<and> list_all is_digit ''5'' \<and> \<not> (''12'' = [] \<and> ''5'' = []) \<and>
    \<not> list_ex is_digit ''about '' \<and>
    (''about '' = [] \<or> (last ''about '' \<noteq> CHR ''.'' \<and> \<not> is_sign (last ''about ''))) \<and>
    ('' m'' = [] \<or> (\<not> is_digit (hd '' m'') \<and> hd '' m'' \<noteq> CHR ''.''))"
    by (simp add: is_digit_def is_sign_def)
  have "clean (''about '' @ decimal_token ''-'' ''12'' ''5'' @ '' m'') =
     Some (decimal_value ''-'' ''12'' ''5'')"
    using clean_first_decimal_token
      [where sg = "''-''" and ip = "''12''" and fp = "''5''" and pre = "''about ''"
         and rest = "'' m''"] h
    by blast
  moreover have "decimal_value ''-'' ''12'' ''5'' = - 12.5"
    by (simp add: decimal_value_def digits_value_def digit_value_def)
  moreover have "''about '' @ decimal_token ''-'' ''12'' ''5'' @ '' m'' = ''about -12.5 m''"
    by (simp add: decimal_token_def)
  ultimately show ?thesis using h by simp
qed

subsection \<open>Ring closing\<close>

text \<open>
  C7. Ring closing is idempotent: for every coordinate sequence, closing the ring twice
  gives the same sequence as closing it once.
\<close>

theorem ensure_closed_ring_idempotent:
  "ensure_closed_ring (ensure_closed_ring nodes) = ensure_closed_ring nodes"
  by (cases nodes) (auto simp: ensure_closed_ring_def)

text \<open>
  C2. The claim: the outline of every record has its first coordinate equal to its last,
  at least 4 coordinates, and at least 3 distinct vertices. The first two hold
  (\<open>build_way_outline\<close>). The third does not: the loop only counts the coordinates of the
  closed ring (\<open>len(coordinates) < 4\<close>), although its comment asks for 3 unique points
  and the closing point. A closed way that names a node twice, or two nodes at one
  position, passes with fewer: here nodes 1, 2, 2, 1 give a record whose outline has
  2 distinct vertices.
\<close>

theorem closed_ring_with_two_distinct_vertices:
  "fetch_osm_buildings []
     (Some (Some [Node 1 0 0, Node 2 0 1,
        Way 100 (Some [1, 2, 2, 1]) (Some [''building'' \<mapsto> ''yes''])])) False =
   Inr (\<lparr>count = 1,
          buildings = [\<lparr>way_id = 100,
             outline = [\<lparr>lat = 0, lng = 0\<rparr>, \<lparr>lat = 0, lng = 1\<rparr>,
                        \<lparr>lat = 0, lng = 1\<rparr>, \<lparr>lat = 0, lng = 0\<rparr>],
             height_m = None, address = None\<rparr>],
          czml_files = None\<rparr>, []) \<and>
   card (set [\<lparr>lat = 0, lng = 0\<rparr>, \<lparr>lat = 0, lng = 1\<rparr>,
              \<lparr>lat = 0, lng = 1\<rparr>, \<lparr>lat = 0 :: real, lng = 0 :: real\<rparr>]) = 2"
proof
  show "fetch_osm_buildings []
     (Some (Some [Node 1 0 0, Node 2 0 1,
        Way 100 (Some [1, 2, 2, 1]) (Some [''building'' \<mapsto> ''yes''])])) False =
   Inr (\<lparr>count = 1,
          buildings = [\<lparr>way_id = 100,
             outline = [\<lparr>lat = 0, lng = 0\<rparr>, \<lparr>lat = 0, lng = 1\<rparr>,
                        \<lparr>lat = 0, lng = 1\<rparr>, \<lparr>lat = 0, lng = 0\<rparr>],
             height_m = None, address = None\<rparr>],
          czml_files = None\<rparr>, [])"
    by (simp add: loop_defs height_defs parse_defs)
  show "card (set [\<lparr>lat = 0, lng = 0\<rparr>, \<lparr>lat = 0, lng = 1\<rparr>,
              \<lparr>lat = 0, lng = 1\<rparr>, \<lparr>lat = 0 :: real, lng = 0 :: real\<rparr>]) = 2"
    unfolding card_set by simp
qed

subsection \<open>Address formatting\<close>

text \<open>
  C5. For every tag mapping the formatted address is made of the values of the tags
  addr:housenumber, addr:houseletter, addr:street, addr:suburb, addr:city, addr:state,
  addr:postcode, addr:country, in that order, without the absent and the empty ones,
  joined by ", "; when no value is left (so when none of the tags is present) the result
  is absent, and it is never the empty string. The tags addr:housenumber = "12" and
  addr:street = "Main St" give "12, Main St".
\<close>

theorem format_address_fixed_order:
  "ADDRESS_FIELDS =
     [''addr:housenumber'', ''addr:houseletter'', ''addr:street'', ''addr:suburb'',
      ''addr:city'', ''addr:state'', ''addr:postcode'', ''addr:country''] \<and>
   format_address tags =
     (if address_values tags = [] then None else Some (join '', '' (address_values tags))) \<and>
   ((\<forall>k \<in> set ADDRESS_FIELDS. tags k = None) \<longrightarrow> format_address tags = None) \<and>
   format_address tags \<noteq> Some [] \<and>
   format_address [''addr:housenumber'' \<mapsto> ''12'', ''addr:street'' \<mapsto> ''Main St''] =
     Some ''12, Main St''"
proof (intro conjI impI)
  show "ADDRESS_FIELDS =
     [''addr:housenumber'', ''addr:houseletter'', ''addr:street'', ''addr:suburb'',
      ''addr:city'', ''addr:state'', ''addr:postcode'', ''addr:country'']"
    by (simp add: ADDRESS_FIELDS_def)
  show f: "format_address tags =
     (if address_values tags = [] then None else Some (join '', '' (address_values tags)))"
    by (simp add: format_address_def collect_parts_values)
  show "format_address tags \<noteq> Some []"
  proof (cases "address_values tags = []")
    case True
    with f show ?thesis by simp
  next
    case False
    moreover have "\<forall>p \<in> set (address_values tags). p \<noteq> []"
      by (simp add: address_values_def)
    ultimately have "join '', '' (address_values tags) \<noteq> []" by (rule join_nonempty)
    with f False show ?thesis by simp
  qed
  show "format_address [''addr:housenumber'' \<mapsto> ''12'', ''addr:street'' \<mapsto> ''Main St''] =
     Some ''12, Main St''"
    by (simp add: format_address_def ADDRESS_FIELDS_def)
next
  assume "\<forall>k \<in> set ADDRESS_FIELDS. tags k = None"
  then have "address_values tags = []"
    by (simp add: address_values_def ADDRESS_FIELDS_def)
  then show "format_address tags = None"
    by (simp add: format_address_def collect_parts_values)
qed

theorem format_address_fixed_order_witness:
  "list_all (\<lambda>k. [''building'' \<mapsto> ''yes''] k = None) ADDRESS_FIELDS \<and>
   format_address [''building'' \<mapsto> ''yes''] = None \<and>
   address_values [''addr:city'' \<mapsto> ''Oslo'', ''addr:street'' \<mapsto> [], ''addr:housenumber'' \<mapsto> ''7'']
     = [''7'', ''Oslo''] \<and>
   format_address [''addr:city'' \<mapsto> ''Oslo'', ''addr:street'' \<mapsto> [], ''addr:housenumber'' \<mapsto> ''7'']
     = Some ''7, Oslo''"
proof -
  have h: "\<forall>k \<in> set ADDRESS_FIELDS. [''building'' \<mapsto> ''yes''] k = None"
    by (simp add: ADDRESS_FIELDS_def)
  have n: "format_address [''building'' \<mapsto> ''yes''] = None"
    using format_address_fixed_order [of "[''building'' \<mapsto> ''yes'']"] h by blast
  have v: "address_values [''addr:city'' \<mapsto> ''Oslo'', ''addr:street'' \<mapsto> [],
      ''addr:housenumber'' \<mapsto> ''7''] = [''7'', ''Oslo'']"
    by (simp add: address_values_def ADDRESS_FIELDS_def)
  have "format_address [''addr:city'' \<mapsto> ''Oslo'', ''addr:street'' \<mapsto> [],
      ''addr:housenumber'' \<mapsto> ''7''] = Some ''7, Oslo''"
    using format_address_fixed_order [of "[''addr:city'' \<mapsto> ''Oslo'', ''addr:street'' \<mapsto> [],
      ''addr:housenumber'' \<mapsto> ''7'']"] v by simp
  moreover have "list_all (\<lambda>k. [''building'' \<mapsto> ''yes''] k = None) ADDRESS_FIELDS"
    by (simp add: ADDRESS_FIELDS_def)
  ultimately show ?thesis using n v by blast
qed

subsection \<open>The loop over the ways\<close>

text \<open>
  C4. For every building way, the node identifiers that the node mapping does not have
  contribute no coordinate (the resolved coordinates are those of the identifiers it
  has, in order), and no input makes the run fail once the payload has its elements. A
  way whose closed ring has fewer than 4 coordinates has fewer than 3 distinct resolved
  vertices, yields no record, and the loop goes on with the next way; a way with fewer
  than 3 resolvable references yields no record either; and the result has no record
  with the id of such a way.
\<close>

theorem unresolved_refs_and_degenerate_rings:
  "resolve_refs nodes refs [] =
     map (\<lambda>i. the (nodes i)) (filter (\<lambda>i. nodes i \<noteq> None) refs) \<and>
   (\<exists>res docs. fetch_osm_buildings errs (Some (Some els)) oc = Inr (res, docs)) \<and>
   (length (ensure_closed_ring (resolve_refs nodes (node_refs_of way) [])) < 4 \<longrightarrow>
      card (set (resolve_refs nodes (node_refs_of way) [])) < 3 \<and>
      build_way nodes wid way = None \<and>
      process_ways oc nodes ((wid, way) # rest) st = process_ways oc nodes rest st) \<and>
   (length (filter (\<lambda>i. nodes i \<noteq> None) (node_refs_of way)) < 3 \<longrightarrow>
      build_way nodes wid way = None) \<and>
   (fetch_osm_buildings errs (Some (Some els)) oc = Inr (res, docs) \<and>
    (wid, way) \<in> set (building_index els) \<and>
    length (ensure_closed_ring (resolve_refs (node_index els) (node_refs_of way) [])) < 4 \<longrightarrow>
      wid \<notin> way_id ` set (buildings res))"
proof (intro conjI impI)
  show "resolve_refs nodes refs [] =
     map (\<lambda>i. the (nodes i)) (filter (\<lambda>i. nodes i \<noteq> None) refs)"
    by (rule resolve_refs_present)
  show "\<exists>res docs. fetch_osm_buildings errs (Some (Some els)) oc = Inr (res, docs)"
    by (simp add: fetch_elements)
next
  assume s: "length (ensure_closed_ring (resolve_refs nodes (node_refs_of way) [])) < 4"
  then show "card (set (resolve_refs nodes (node_refs_of way) [])) < 3"
    by (rule short_ring_few_vertices)
  from s have n: "build_way nodes wid way = None" by (rule build_way_degenerate)
  then show "build_way nodes wid way = None" .
  from n show "process_ways oc nodes ((wid, way) # rest) st = process_ways oc nodes rest st"
    by simp
next
  assume "length (filter (\<lambda>i. nodes i \<noteq> None) (node_refs_of way)) < 3"
  then have "length (resolve_refs nodes (node_refs_of way) []) < 3"
    by (simp add: resolve_refs_present)
  with ensure_closed_ring_length [of "resolve_refs nodes (node_refs_of way) []"]
  have "length (ensure_closed_ring (resolve_refs nodes (node_refs_of way) [])) < 4" by simp
  then show "build_way nodes wid way = None" by (rule build_way_degenerate)
next
  assume a: "fetch_osm_buildings errs (Some (Some els)) oc = Inr (res, docs) \<and>
    (wid, way) \<in> set (building_index els) \<and>
    length (ensure_closed_ring (resolve_refs (node_index els) (node_refs_of way) [])) < 4"
  then have res: "buildings res = assembled els" by (auto simp: fetch_elements)
  have d: "distinct (map fst (building_index els))"
    by (simp add: building_index_def index_buildings_distinct)
  from a have m: "map_of (building_index els) wid = Some way"
    using map_of_is_SomeI [OF d] by blast
  from a have n: "build_way (node_index els) wid way = None"
    using build_way_degenerate by blast
  show "wid \<notin> way_id ` set (buildings res)"
  proof
    assume "wid \<in> way_id ` set (buildings res)"
    then obtain r where r: "r \<in> set (assembled els)" "way_id r = wid"
      using res by auto
    from assembled_origin [OF r(1)] r(2) m n show False by auto
  qed
qed


theorem unresolved_refs_and_degenerate_rings_witness:
  "length (ensure_closed_ring (resolve_refs [1 \<mapsto> \<lparr>lat = 0, lng = 0\<rparr>, 2 \<mapsto> \<lparr>lat = 0, lng = 1\<rparr>]
      (node_refs_of (Way 7 (Some [1, 9, 2, 1]) (Some [''building'' \<mapsto> ''yes'']))) [])) < 4 \<and>
   build_way [1 \<mapsto> \<lparr>lat = 0, lng = 0\<rparr>, 2 \<mapsto> \<lparr>lat = 0, lng = 1\<rparr>] 7
      (Way 7 (Some [1, 9, 2, 1]) (Some [''building'' \<mapsto> ''yes''])) = None \<and>
   length (filter (\<lambda>i. [1 \<mapsto> \<lparr>lat = 0, lng = 0\<rparr>, 2 \<mapsto> \<lparr>lat = 0 :: real, lng = 1 :: real\<rparr>] i \<noteq> None)
      (node_refs_of (Way 8 (Some [1, 2, 5]) (Some [''building'' \<mapsto> ''yes''])))) < 3 \<and>
   build_way [1 \<mapsto> \<lparr>lat = 0, lng = 0\<rparr>, 2 \<mapsto> \<lparr>lat = 0, lng = 1\<rparr>] 8
      (Way 8 (Some [1, 2, 5]) (Some [''building'' \<mapsto> ''yes''])) = None \<and>
   fetch_osm_buildings []
     (Some (Some [Node 1 0 0, Node 2 0 1,
        Way 7 (Some [1, 9, 2, 1]) (Some [''building'' \<mapsto> ''yes''])])) False =
     Inr (\<lparr>count = 0, buildings = [], czml_files = None\<rparr>, []) \<and>
   7 \<notin> way_id ` set (buildings \<lparr>count = 0, buildings = [], czml_files = None\<rparr>)"
proof -
  let ?nodes = "[1 \<mapsto> \<lparr>lat = 0, lng = 0\<rparr>, 2 \<mapsto> \<lparr>lat = 0 :: real, lng = 1 :: real\<rparr>] :: int \<rightharpoonup> coord"
  let ?w7 = "Way 7 (Some [1, 9, 2, 1]) (Some [''building'' \<mapsto> ''yes''])"
  let ?w8 = "Way 8 (Some [1, 2, 5]) (Some [''building'' \<mapsto> ''yes''])"
  let ?els = "[Node 1 0 0, Node 2 0 1, ?w7]"
  let ?res = "\<lparr>count = 0, buildings = [], czml_files = None\<rparr>"
  have h1: "length (ensure_closed_ring (resolve_refs ?nodes (node_refs_of ?w7) [])) < 4"
    by (simp add: node_refs_of_def ensure_closed_ring_def)
  have h2: "length (filter (\<lambda>i. ?nodes i \<noteq> None) (node_refs_of ?w8)) < 3"
    by (simp add: node_refs_of_def)
  have h3: "fetch_osm_buildings [] (Some (Some ?els)) False = Inr (?res, [])"
    by (simp add: loop_defs)
  have h4: "(7, ?w7) \<in> set (building_index ?els)"
    by (simp add: building_index_def is_building_def tags_of_def)
  have h5: "length (ensure_closed_ring
      (resolve_refs (node_index ?els) (node_refs_of ?w7) [])) < 4"
    by (simp add: node_index_def node_refs_of_def ensure_closed_ring_def)
  have t1: "build_way ?nodes 7 ?w7 = None"
    using unresolved_refs_and_degenerate_rings [where nodes = ?nodes and way = ?w7 and wid = 7] h1 by blast
  have t2: "build_way ?nodes 8 ?w8 = None"
    using unresolved_refs_and_degenerate_rings [where nodes = ?nodes and way = ?w8 and wid = 8] h2 by blast
  have t3: "7 \<notin> way_id ` set (buildings ?res)"
    using unresolved_refs_and_degenerate_rings [where els = ?els and errs = "[]" and oc = False and res = ?res
        and docs = "[]" and wid = 7 and way = ?w7] h3 h4 h5 by blast
  from h1 h2 h3 t1 t2 t3 show ?thesis by blast
qed

subsection \<open>Scene packets\<close>

text \<open>
  C6. For every record, the geometry packet of its document has as polygon positions
  the longitude, the latitude and 0.0 of each outline vertex, one after the other;
  perPositionHeight is false, the base height is 0.0, and extrudedHeight is the height
  of the record, or 10.0 when the record has none. The documents written by a run with
  CZML output are the documents of the returned records, and a record whose tags
  resolve to no height keeps \<open>height_m\<close> absent while its packet is extruded to 10.0.
\<close>

theorem geometry_packet_of_record:
  "jpath [''polygon'', ''positions'', ''cartographicDegrees''] (snd (document_of r) ! 1) =
     Some (JList (map JNum (concat (map (\<lambda>c. [lng c, lat c, 0]) (outline r))))) \<and>
   jpath [''polygon'', ''perPositionHeight''] (snd (document_of r) ! 1) = Some (JBool False) \<and>
   jpath [''polygon'', ''height''] (snd (document_of r) ! 1) = Some (JNum 0) \<and>
   jpath [''polygon'', ''extrudedHeight''] (snd (document_of r) ! 1) =
     Some (JNum (case height_m r of None \<Rightarrow> 10 | Some h \<Rightarrow> h)) \<and>
   (fetch_osm_buildings errs (Some (Some els)) True = Inr (res, docs) \<longrightarrow>
      docs = map document_of (buildings res)) \<and>
   (build_way nodes wid way = Some b \<and> resolve_height (way_tags_of way) = None \<longrightarrow>
      height_m b = None \<and>
      jpath [''polygon'', ''extrudedHeight''] (snd (document_of b) ! 1) = Some (JNum 10))"
proof (intro conjI impI)
  show "jpath [''polygon'', ''positions'', ''cartographicDegrees''] (snd (document_of r) ! 1) =
     Some (JList (map JNum (concat (map (\<lambda>c. [lng c, lat c, 0]) (outline r)))))"
    by (simp add: packet_defs extend_cartographic_acc)
  show "jpath [''polygon'', ''perPositionHeight''] (snd (document_of r) ! 1) = Some (JBool False)"
    by (simp add: packet_defs)
  show "jpath [''polygon'', ''height''] (snd (document_of r) ! 1) = Some (JNum 0)"
    by (simp add: packet_defs)
  show e: "\<And>r. jpath [''polygon'', ''extrudedHeight''] (snd (document_of r) ! 1) =
     Some (JNum (case height_m r of None \<Rightarrow> 10 | Some h \<Rightarrow> h))"
    by (simp add: packet_defs)
  {
    assume "fetch_osm_buildings errs (Some (Some els)) True = Inr (res, docs)"
    then show "docs = map document_of (buildings res)"
      by (auto simp: fetch_elements)
  }
  {
    assume a: "build_way nodes wid way = Some b \<and> resolve_height (way_tags_of way) = None"
    then show h: "height_m b = None" using build_way_height by force
    then show "jpath [''polygon'', ''extrudedHeight''] (snd (document_of b) ! 1) =
        Some (JNum 10)"
      using e [of b] by simp
  }
qed


theorem geometry_packet_of_record_witness:
  "fetch_osm_buildings []
     (Some (Some [Node 1 0 0, Node 2 0 1, Node 3 1 1,
        Way 100 (Some [1, 2, 3]) (Some [''building'' \<mapsto> ''yes''])])) True =
     Inr (\<lparr>count = 1,
            buildings = [\<lparr>way_id = 100,
               outline = [\<lparr>lat = 0, lng = 0\<rparr>, \<lparr>lat = 0, lng = 1\<rparr>,
                          \<lparr>lat = 1, lng = 1\<rparr>, \<lparr>lat = 0, lng = 0\<rparr>],
               height_m = None, address = None\<rparr>],
            czml_files = Some [''way_100.czml'']\<rparr>,
          [document_of \<lparr>way_id = 100,
               outline = [\<lparr>lat = 0, lng = 0\<rparr>, \<lparr>lat = 0, lng = 1\<rparr>,
                          \<lparr>lat = 1, lng = 1\<rparr>, \<lparr>lat = 0, lng = 0\<rparr>],
               height_m = None, address = None\<rparr>]) \<and>
   build_way [1 \<mapsto> \<lparr>lat = 0, lng = 0\<rparr>, 2 \<mapsto> \<lparr>lat = 0, lng = 1\<rparr>, 3 \<mapsto> \<lparr>lat = 1, lng = 1\<rparr>] 100
       (Way 100 (Some [1, 2, 3]) (Some [''building'' \<mapsto> ''yes''])) =
     Some \<lparr>way_id = 100,
               outline = [\<lparr>lat = 0, lng = 0\<rparr>, \<lparr>lat = 0, lng = 1\<rparr>,
                          \<lparr>lat = 1, lng = 1\<rparr>, \<lparr>lat = 0, lng = 0\<rparr>],
               height_m = None, address = None\<rparr> \<and>
   resolve_height (way_tags_of (Way 100 (Some [1, 2, 3]) (Some [''building'' \<mapsto> ''yes'']))) = None \<and>
   jpath [''polygon'', ''extrudedHeight'']
     (snd (document_of \<lparr>way_id = 100,
               outline = [\<lparr>lat = 0, lng = 0\<rparr>, \<lparr>lat = 0, lng = 1\<rparr>,
                          \<lparr>lat = 1, lng = 1\<rparr>, \<lparr>lat = 0, lng = 0\<rparr>],
               height_m = None, address = None\<rparr>) ! 1) = Some (JNum 10) \<and>
   jpath [''polygon'', ''positions'', ''cartographicDegrees'']
     (snd (document_of \<lparr>way_id = 100,
               outline = [\<lparr>lat = 0, lng = 0\<rparr>, \<lparr>lat = 0, lng = 1\<rparr>,
                          \<lparr>lat = 1, lng = 1\<rparr>, \<lparr>lat = 0, lng = 0\<rparr>],
               height_m = None, address = None\<rparr>) ! 1) =
     Some (JList (map JNum [0, 0, 0, 1, 0, 0, 1, 1, 0, 0, 0, 0]))"
proof -
  let ?way = "Way 100 (Some [1, 2, 3]) (Some [''building'' \<mapsto> ''yes''])"
  let ?els = "[Node 1 0 0, Node 2 0 1, Node 3 1 1, ?way]"
  let ?nodes = "[1 \<mapsto> \<lparr>lat = 0, lng = 0\<rparr>, 2 \<mapsto> \<lparr>lat = 0, lng = 1\<rparr>,
      3 \<mapsto> \<lparr>lat = 1 :: real, lng = 1 :: real\<rparr>] :: int \<rightharpoonup> coord"
  let ?r = "\<lparr>way_id = 100,
               outline = [\<lparr>lat = 0, lng = 0\<rparr>, \<lparr>lat = 0, lng = 1\<rparr>,
                          \<lparr>lat = 1, lng = 1\<rparr>, \<lparr>lat = 0, lng = 0\<rparr>],
               height_m = None, address = None\<rparr>"
  let ?res = "\<lparr>count = 1, buildings = [?r], czml_files = Some [''way_100.czml'']\<rparr>"
  have f: "fetch_osm_buildings [] (Some (Some ?els)) True = Inr (?res, [document_of ?r])"
    by (simp add: loop_defs height_defs parse_defs document_of_def czml_name_def str_int_def
          str_nat.simps)
  have b: "build_way ?nodes 100 ?way = Some ?r"
    by (simp add: loop_defs height_defs parse_defs)
  have h: "resolve_height (way_tags_of ?way) = None"
    by (simp add: loop_defs height_defs parse_defs)
  note t = geometry_packet_of_record [where r = ?r and b = ?r and nodes = ?nodes and wid = 100 and way = ?way
      and errs = "[]" and els = ?els and res = ?res and docs = "[document_of ?r]"]
  have e: "jpath [''polygon'', ''extrudedHeight''] (snd (document_of ?r) ! 1) = Some (JNum 10)"
    using t b h by blast
  have p: "jpath [''polygon'', ''positions'', ''cartographicDegrees'']
      (snd (document_of ?r) ! 1) = Some (JList (map JNum [0, 0, 0, 1, 0, 0, 1, 1, 0, 0, 0, 0]))"
    using t by simp
  from f b h e p show ?thesis by blast
qed

text \<open>
  C9. Building the packet document is deterministic: equal way id, coordinates and
  height give equal documents. The document has two packets; the identifier, the name
  and the clock of the first are fixed texts (with the way id in the name), and the
  identifier and the name of the second are texts of the way id alone: no time is read
  and no identifier is drawn.
\<close>

theorem build_czml_document_deterministic:
  "(wid = wid' \<and> cs = cs' \<and> h = h' \<longrightarrow>
      build_czml_document wid cs h = build_czml_document wid' cs' h') \<and>
   length (build_czml_document wid cs h) = 2 \<and>
   jpath [''id''] (build_czml_document wid cs h ! 0) = Some (JStr ''document'') \<and>
   jpath [''name''] (build_czml_document wid cs h ! 0) = Some (JStr (''OSM Way '' @ str_int wid)) \<and>
   jpath [''clock'', ''interval''] (build_czml_document wid cs h ! 0) =
     Some (JStr ''2020-01-01T00:00:00Z/2020-01-01T00:01:00Z'') \<and>
   jpath [''clock'', ''currentTime''] (build_czml_document wid cs h ! 0) =
     Some (JStr ''2020-01-01T00:00:00Z'') \<and>
   jpath [''id''] (build_czml_document wid cs h ! 1) = Some (JStr (''building-'' @ str_int wid)) \<and>
   jpath [''name''] (build_czml_document wid cs h ! 1) = Some (JStr (''Building '' @ str_int wid))"
  by (simp add: packet_defs)

theorem build_czml_document_deterministic_witness:
  "build_czml_document 100 [\<lparr>lat = 0, lng = 1\<rparr>] (Some 9) =
     build_czml_document (99 + 1) ([] @ [\<lparr>lat = 0, lng = 1\<rparr>]) (Some (3 * 3)) \<and>
   jpath [''id''] (build_czml_document 100 [\<lparr>lat = 0, lng = 1\<rparr>] (Some 9) ! 1) =
     Some (JStr ''building-100'')"
proof -
  note t = build_czml_document_deterministic [where wid = 100 and wid' = "99 + 1" and cs = "[\<lparr>lat = 0, lng = 1\<rparr>]"
      and cs' = "[] @ [\<lparr>lat = 0, lng = 1\<rparr>]" and h = "Some 9" and h' = "Some (3 * 3)"]
  have h: "(100 :: int) = 99 + 1 \<and> [\<lparr>lat = 0 :: real, lng = 1 :: real\<rparr>] = [] @ [\<lparr>lat = 0, lng = 1\<rparr>] \<and>
      Some (9 :: real) = Some (3 * 3)"
    by simp
  have "build_czml_document 100 [\<lparr>lat = 0, lng = 1\<rparr>] (Some 9) =
     build_czml_document (99 + 1) ([] @ [\<lparr>lat = 0, lng = 1\<rparr>]) (Some (3 * 3))"
    using t h by blast
  moreover have "jpath [''id''] (build_czml_document 100 [\<lparr>lat = 0, lng = 1\<rparr>] (Some 9) ! 1) =
     Some (JStr ''building-100'')"
    using t by (simp add: str_int_def str_nat.simps)
  ultimately show ?thesis by blast
qed

subsection \<open>Repeated elements\<close>

text \<open>
  C10. When the element list holds several nodes with one id, the node mapping has the
  coordinate of the last of them; when it holds several building ways with one id, the
  way mapping has the last of them. So the result has at most one record for each way
  id, and a record with the id of a way is the one built from the last building way of
  that id and the final node mapping.
\<close>

theorem last_occurrence_wins:
  "(fetch_osm_buildings errs (Some (Some els)) oc = Inr (res, docs) \<longrightarrow>
      distinct (map way_id (buildings res))) \<and>
   (els = pre @ Node j la lo # post \<and> \<not> list_ex (is_node j) post \<longrightarrow>
      node_index els j = Some \<lparr>lat = la, lng = lo\<rparr>) \<and>
   (els = pre @ Way i ns t # post \<and> is_building t \<and> \<not> list_ex (is_building_way i) post \<longrightarrow>
      map_of (building_index els) i = Some (Way i ns t) \<and>
      (fetch_osm_buildings errs (Some (Some els)) oc = Inr (res, docs) \<longrightarrow>
         (\<forall>r \<in> set (buildings res). way_id r = i \<longrightarrow>
            build_way (node_index els) i (Way i ns t) = Some r)))"
proof (intro conjI impI ballI)
  assume "fetch_osm_buildings errs (Some (Some els)) oc = Inr (res, docs)"
  then have "buildings res = assembled els" by (auto simp: fetch_elements)
  then show "distinct (map way_id (buildings res))" by (simp add: assembled_distinct)
next
  assume "els = pre @ Node j la lo # post \<and> \<not> list_ex (is_node j) post"
  then show "node_index els j = Some \<lparr>lat = la, lng = lo\<rparr>"
    using node_index_last by blast
next
  assume a: "els = pre @ Way i ns t # post \<and> is_building t \<and>
    \<not> list_ex (is_building_way i) post"
  then show m: "map_of (building_index els) i = Some (Way i ns t)"
    using building_index_last by blast
  fix r
  assume "fetch_osm_buildings errs (Some (Some els)) oc = Inr (res, docs)"
    and r: "r \<in> set (buildings res)" and i: "way_id r = i"
  then have "r \<in> set (assembled els)" by (auto simp: fetch_elements)
  from assembled_origin [OF this] i m
  show "build_way (node_index els) i (Way i ns t) = Some r" by auto
qed

theorem last_occurrence_wins_witness:
  "fetch_osm_buildings []
     (Some (Some ([Node 1 0 0, Node 2 0 1, Node 3 1 1,
          Way 100 (Some [1, 2, 3]) (Some [''building'' \<mapsto> ''yes'', ''height'' \<mapsto> ''5'']),
          Node 3 2 2] @
        Way 100 (Some [3, 2, 1]) (Some [''building'' \<mapsto> ''yes'', ''height'' \<mapsto> ''9'']) # [])))
     False =
     Inr (\<lparr>count = 1,
            buildings = [\<lparr>way_id = 100,
               outline = [\<lparr>lat = 2, lng = 2\<rparr>, \<lparr>lat = 0, lng = 1\<rparr>,
                          \<lparr>lat = 0, lng = 0\<rparr>, \<lparr>lat = 2, lng = 2\<rparr>],
               height_m = Some 9, address = None\<rparr>],
            czml_files = None\<rparr>, []) \<and>
   is_building (Some [''building'' \<mapsto> ''yes'', ''height'' \<mapsto> ''9'']) \<and>
   \<not> list_ex (is_building_way 100) [] \<and>
   \<not> list_ex (is_node 3)
       [Way 100 (Some [3, 2, 1]) (Some [''building'' \<mapsto> ''yes'', ''height'' \<mapsto> ''9''])] \<and>
   node_index ([Node 1 0 0, Node 2 0 1, Node 3 1 1,
          Way 100 (Some [1, 2, 3]) (Some [''building'' \<mapsto> ''yes'', ''height'' \<mapsto> ''5''])] @
        Node 3 2 2 #
        [Way 100 (Some [3, 2, 1]) (Some [''building'' \<mapsto> ''yes'', ''height'' \<mapsto> ''9''])]) 3 =
     Some \<lparr>lat = 2, lng = 2\<rparr> \<and>
   map_of (building_index ([Node 1 0 0, Node 2 0 1, Node 3 1 1,
          Way 100 (Some [1, 2, 3]) (Some [''building'' \<mapsto> ''yes'', ''height'' \<mapsto> ''5'']),
          Node 3 2 2] @
        Way 100 (Some [3, 2, 1]) (Some [''building'' \<mapsto> ''yes'', ''height'' \<mapsto> ''9'']) # [])) 100 =
     Some (Way 100 (Some [3, 2, 1]) (Some [''building'' \<mapsto> ''yes'', ''height'' \<mapsto> ''9''])) \<and>
   distinct (map way_id (buildings \<lparr>count = 1,
            buildings = [\<lparr>way_id = 100,
               outline = [\<lparr>lat = 2, lng = 2\<rparr>, \<lparr>lat = 0, lng = 1\<rparr>,
                          \<lparr>lat = 0, lng = 0\<rparr>, \<lparr>lat = 2, lng = 2\<rparr>],
               height_m = Some 9, address = None\<rparr>],
            czml_files = None\<rparr>)) \<and>
   build_way (node_index ([Node 1 0 0, Node 2 0 1, Node 3 1 1,
          Way 100 (Some [1, 2, 3]) (Some [''building'' \<mapsto> ''yes'', ''height'' \<mapsto> ''5'']),
          Node 3 2 2] @
        Way 100 (Some [3, 2, 1]) (Some [''building'' \<mapsto> ''yes'', ''height'' \<mapsto> ''9'']) # [])) 100
      (Way 100 (Some [3, 2, 1]) (Some [''building'' \<mapsto> ''yes'', ''height'' \<mapsto> ''9''])) =
     Some \<lparr>way_id = 100,
               outline = [\<lparr>lat = 2, lng = 2\<rparr>, \<lparr>lat = 0, lng = 1\<rparr>,
                          \<lparr>lat = 0, lng = 0\<rparr>, \<lparr>lat = 2, lng = 2\<rparr>],
               height_m = Some 9, address = None\<rparr>"
proof -
  let ?w1 = "Way 100 (Some [1, 2, 3]) (Some [''building'' \<mapsto> ''yes'', ''height'' \<mapsto> ''5''])"
  let ?t2 = "Some [''building'' \<mapsto> ''yes'', ''height'' \<mapsto> ''9'']"
  let ?w2 = "Way 100 (Some [3, 2, 1]) ?t2"
  let ?pre = "[Node 1 0 0, Node 2 0 1, Node 3 1 1, ?w1, Node 3 2 2]"
  let ?pre' = "[Node 1 0 0, Node 2 0 1, Node 3 1 1, ?w1]"
  let ?els = "?pre @ ?w2 # []"
  let ?els' = "?pre' @ Node 3 2 2 # [?w2]"
  let ?r = "\<lparr>way_id = 100,
               outline = [\<lparr>lat = 2, lng = 2\<rparr>, \<lparr>lat = 0, lng = 1\<rparr>,
                          \<lparr>lat = 0, lng = 0\<rparr>, \<lparr>lat = 2, lng = 2\<rparr>],
               height_m = Some 9, address = None\<rparr>"
  let ?res = "\<lparr>count = 1, buildings = [?r], czml_files = None\<rparr>"
  have f: "fetch_osm_buildings [] (Some (Some ?els)) False = Inr (?res, [])"
    by (simp add: loop_defs height_defs parse_defs)
  have b: "is_building ?t2" by (simp add: is_building_def tags_of_def)
  have n: "\<not> list_ex (is_building_way 100) []" by simp
  have k: "\<not> list_ex (is_node 3) [?w2]" by simp
  have d: "distinct (map way_id (buildings ?res))"
    using last_occurrence_wins [where els = ?els and errs = "[]" and oc = False and res = ?res and docs = "[]"]
      f by blast
  have x: "node_index ?els' 3 = Some \<lparr>lat = 2, lng = 2\<rparr>"
    using last_occurrence_wins [where els = ?els' and pre = ?pre' and j = 3 and la = 2 and lo = 2
        and post = "[?w2]"] k by blast
  have m: "map_of (building_index ?els) 100 = Some ?w2"
    using last_occurrence_wins [where els = ?els and pre = ?pre and i = 100 and ns = "Some [3, 2, 1]"
        and t = ?t2 and post = "[]"] b n by blast
  have "\<forall>r \<in> set (buildings ?res). way_id r = 100 \<longrightarrow>
      build_way (node_index ?els) 100 ?w2 = Some r"
    using last_occurrence_wins [where els = ?els and pre = ?pre and i = 100 and ns = "Some [3, 2, 1]"
        and t = ?t2 and post = "[]" and errs = "[]" and oc = False and res = ?res
        and docs = "[]"] f b n by blast
  then have y: "build_way (node_index ?els) 100 ?w2 = Some ?r" by simp
  from f b n k d x m y show ?thesis by blast
qed

end
